theory Spec2Isabelle
  imports Complex_Main
begin

section \<open>Values of the program\<close>

subsection \<open>Doubles\<close>

text \<open>
  The source computes with C++ \<^verbatim>\<open>double\<close> and uses \<^verbatim>\<open>R_PosInf\<close>. A double is
  modelled as a finite real number or one of the three special values of IEEE 754.
  The special values follow the IEEE rules exactly. Arithmetic on finite values is
  exact: rounding, overflow and underflow of finite values are outside the model
  (as is the sign of zero, which no operation of the program observes).
\<close>

datatype double = Fin real | PInf | NInf | NaN

fun dadd :: "double \<Rightarrow> double \<Rightarrow> double" where
  "dadd (Fin a) (Fin b) = Fin (a + b)"
| "dadd NaN y = NaN"
| "dadd x NaN = NaN"
| "dadd PInf NInf = NaN"
| "dadd NInf PInf = NaN"
| "dadd PInf y = PInf"
| "dadd x PInf = PInf"
| "dadd NInf y = NInf"
| "dadd x NInf = NInf"

fun dneg :: "double \<Rightarrow> double" where
  "dneg (Fin a) = Fin (- a)"
| "dneg PInf = NInf"
| "dneg NInf = PInf"
| "dneg NaN = NaN"

definition dsub :: "double \<Rightarrow> double \<Rightarrow> double" where
  "dsub x y = dadd x (dneg y)"

definition inf_of_sign :: "real \<Rightarrow> double" where
  "inf_of_sign s = (if s = 0 then NaN else if 0 < s then PInf else NInf)"

fun dmul :: "double \<Rightarrow> double \<Rightarrow> double" where
  "dmul (Fin a) (Fin b) = Fin (a * b)"
| "dmul NaN y = NaN"
| "dmul x NaN = NaN"
| "dmul PInf (Fin b) = inf_of_sign b"
| "dmul NInf (Fin b) = inf_of_sign (- b)"
| "dmul (Fin a) PInf = inf_of_sign a"
| "dmul (Fin a) NInf = inf_of_sign (- a)"
| "dmul PInf PInf = PInf"
| "dmul NInf NInf = PInf"
| "dmul PInf NInf = NInf"
| "dmul NInf PInf = NInf"

text \<open>The comparison \<^verbatim>\<open>x < y\<close> of two doubles: false as soon as one side is NaN.\<close>

fun dless :: "double \<Rightarrow> double \<Rightarrow> bool" where
  "dless (Fin a) (Fin b) = (a < b)"
| "dless NaN y = False"
| "dless x NaN = False"
| "dless x NInf = False"
| "dless PInf y = False"
| "dless NInf y = True"
| "dless x PInf = True"

text \<open>The comparison \<^verbatim>\<open>x <= y\<close>, used to state conditions on \<^verbatim>\<open>tol\<close>.\<close>

fun dle :: "double \<Rightarrow> double \<Rightarrow> bool" where
  "dle (Fin a) (Fin b) = (a \<le> b)"
| "dle NaN y = False"
| "dle x NaN = False"
| "dle NInf y = True"
| "dle x PInf = True"
| "dle x NInf = False"
| "dle PInf y = False"



subsection \<open>Undefined behaviour as an error value\<close>

text \<open>
  Rcpp's \<^verbatim>\<open>operator[]\<close> and \<^verbatim>\<open>operator()\<close> do not check their indices, so an index
  outside the container is undefined behaviour in the source. The model makes it the
  value \<open>Inl OutOfBounds\<close>. A division of a double by the integer zero does not trap in
  C++ (it gives an infinity or NaN); the model reports it as \<open>Inl DivideByZero\<close> so
  that its absence can be stated.
\<close>

datatype error = OutOfBounds | DivideByZero

fun ebind :: "error + 'a \<Rightarrow> ('a \<Rightarrow> error + 'b) \<Rightarrow> error + 'b" where
  "ebind (Inl e) f = Inl e"
| "ebind (Inr x) f = f x"

text \<open>
  \<^verbatim>\<open>x /= c\<close> for a double \<^verbatim>\<open>x\<close> and an \<^verbatim>\<open>int\<close> \<^verbatim>\<open>c\<close> (converted to double):
  \<open>ddiv_count\<close> is the quotient for a count other than 0, \<open>ddiv_int\<close> the division
  as the model runs it.
\<close>

fun ddiv_count :: "double \<Rightarrow> int \<Rightarrow> double" where
  "ddiv_count (Fin a) c = Fin (a / real_of_int c)"
| "ddiv_count PInf c = (if 0 < c then PInf else NInf)"
| "ddiv_count NInf c = (if 0 < c then NInf else PInf)"
| "ddiv_count NaN c = NaN"

definition ddiv_int :: "double \<Rightarrow> int \<Rightarrow> error + double" where
  "ddiv_int x c = (if c = 0 then Inl DivideByZero else Inr (ddiv_count x c))"

subsection \<open>NumericMatrix and IntegerVector\<close>

text \<open>
  A \<^verbatim>\<open>NumericMatrix\<close> is its column count and its rows; \<^verbatim>\<open>nrow()\<close> is the number of
  rows. An \<^verbatim>\<open>IntegerVector\<close> is a list of integers. The model checks the row and the
  column of an access against the shape of the matrix, so an access it accepts is
  inside the storage of the matrix.
\<close>

record matrix =
  ncol :: nat
  rows :: "double list list"

definition nrow :: "matrix \<Rightarrow> nat" where
  "nrow M = length (rows M)"

definition wf_matrix :: "matrix \<Rightarrow> bool" where
  "wf_matrix M = list_all (\<lambda>r. length r = ncol M) (rows M)"

text \<open>\<^verbatim>\<open>M(i, l)\<close> as a read and as a write.\<close>

definition mat_get :: "matrix \<Rightarrow> nat \<Rightarrow> nat \<Rightarrow> error + double" where
  "mat_get M i l =
     (if i < nrow M \<and> l < ncol M \<and> l < length (rows M ! i) then Inr (rows M ! i ! l)
      else Inl OutOfBounds)"

definition mat_set :: "matrix \<Rightarrow> nat \<Rightarrow> nat \<Rightarrow> double \<Rightarrow> error + matrix" where
  "mat_set M i l v =
     (if i < nrow M \<and> l < ncol M \<and> l < length (rows M ! i)
      then Inr (M\<lparr>rows := (rows M)[i := (rows M ! i)[l := v]]\<rparr>)
      else Inl OutOfBounds)"

text \<open>\<^verbatim>\<open>NumericMatrix M(k, d)\<close> and \<^verbatim>\<open>M.fill(0.0)\<close>: a \<open>k \<times> d\<close> matrix of zeros.\<close>

definition zero_matrix :: "nat \<Rightarrow> nat \<Rightarrow> matrix" where
  "zero_matrix k d = \<lparr>ncol = d, rows = replicate k (replicate d (Fin 0))\<rparr>"

text \<open>\<^verbatim>\<open>v[i]\<close> as a read and as a write; \<^verbatim>\<open>IntegerVector v(n)\<close> is \<open>n\<close> zeros.\<close>

definition vec_get :: "int list \<Rightarrow> nat \<Rightarrow> error + int" where
  "vec_get v i = (if i < length v then Inr (v ! i) else Inl OutOfBounds)"

definition vec_set :: "int list \<Rightarrow> nat \<Rightarrow> int \<Rightarrow> error + int list" where
  "vec_set v i a = (if i < length v then Inr (v[i := a]) else Inl OutOfBounds)"

text \<open>An \<^verbatim>\<open>int\<close> used as an index into a container of \<open>n\<close> elements.\<close>

definition as_index :: "int \<Rightarrow> nat \<Rightarrow> error + nat" where
  "as_index c n = (if 0 \<le> c \<and> c < int n then Inr (nat c) else Inl OutOfBounds)"

section \<open>The assignment step: \<^verbatim>\<open>find_closest_centers\<close>\<close>

text \<open>
  The loops of the source run over the index lists \<open>[0..<n]\<close>; the variables a loop
  updates are its accumulating arguments.

  The innermost loop (lines 19 to 23): the squared distance of observation \<open>i\<close> to
  center \<open>j\<close>, accumulated in \<open>dst\<close> (the source's \<^verbatim>\<open>dist\<close>).
\<close>

fun dist_loop :: "matrix \<Rightarrow> matrix \<Rightarrow> nat \<Rightarrow> nat \<Rightarrow> nat list \<Rightarrow> double \<Rightarrow> error + double" where
  "dist_loop X C i j [] dst = Inr dst"
| "dist_loop X C i j (l # ls) dst =
     ebind (mat_get X i l) (\<lambda>x.
     ebind (mat_get C j l) (\<lambda>c.
       let diff = dsub x c in dist_loop X C i j ls (dadd dst (dmul diff diff))))"

text \<open>
  The loop over the centers (lines 18 to 29), with \<open>min_dist\<close> and \<open>best_cluster\<close>:
  a strictly smaller distance takes over, with the 1-based index \<open>j + 1\<close>.
\<close>

fun center_loop :: "matrix \<Rightarrow> matrix \<Rightarrow> nat \<Rightarrow> nat list \<Rightarrow> double \<Rightarrow> int \<Rightarrow> error + int" where
  "center_loop X C i [] min_dist best_cluster = Inr best_cluster"
| "center_loop X C i (j # js) min_dist best_cluster =
     ebind (dist_loop X C i j [0..<ncol X] (Fin 0)) (\<lambda>dst.
       if dless dst min_dist then center_loop X C i js dst (int j + 1)
       else center_loop X C i js min_dist best_cluster)"

text \<open>The loop over the observations (lines 14 to 31), writing \<open>assignments[i]\<close>.\<close>

fun obs_loop :: "matrix \<Rightarrow> matrix \<Rightarrow> nat list \<Rightarrow> int list \<Rightarrow> error + int list" where
  "obs_loop X C [] assignments = Inr assignments"
| "obs_loop X C (i # rest) assignments =
     ebind (center_loop X C i [0..<nrow C] PInf 0) (\<lambda>best_cluster.
     ebind (vec_set assignments i best_cluster) (\<lambda>assignments'.
       obs_loop X C rest assignments'))"

definition find_closest_centers :: "matrix \<Rightarrow> matrix \<Rightarrow> error + int list" where
  "find_closest_centers X C = obs_loop X C [0..<nrow X] (replicate (nrow X) 0)"

section \<open>The random source\<close>

text \<open>
  \<^verbatim>\<open>R::runif\<close> belongs to R, not to this program, and reads and advances R's global
  generator state. The model takes the generator as a parameter: \<open>rng\<close> is the sequence
  of values in the open interval \<open>(0, 1)\<close> that R's \<^verbatim>\<open>unif_rand\<close> will deliver, and the
  position \<open>p\<close> of the next value is the generator state, passed in and returned.
  As in R's implementation, \<^verbatim>\<open>runif(a, b)\<close> is \<open>a + (b - a) * u\<close> for the next value \<open>u\<close>,
  and \<open>a\<close> itself, with no draw, when \<open>a = b\<close>.
\<close>

definition runif :: "(nat \<Rightarrow> real) \<Rightarrow> nat \<Rightarrow> real \<Rightarrow> real \<Rightarrow> real \<times> nat" where
  "runif rng p a b = (if a = b then (a, p) else (a + (b - a) * rng p, Suc p))"


text \<open>A generator that delivers the same value forever, for concrete runs.\<close>

definition rng_const :: "real \<Rightarrow> nat \<Rightarrow> real" where
  "rng_const u p = u"

text \<open>A generator that delivers \<open>1/4\<close> and \<open>3/4\<close> in turn, for concrete runs.\<close>

definition rng_alternating :: "nat \<Rightarrow> real" where
  "rng_alternating p = (if even p then 1 / 4 else 3 / 4)"

section \<open>The update step (lines 61 to 87)\<close>

text \<open>Lines 69 to 71: add observation \<open>j\<close> into the accumulator row \<open>cluster_idx\<close>.\<close>

fun add_obs_loop :: "matrix \<Rightarrow> nat \<Rightarrow> nat \<Rightarrow> nat list \<Rightarrow> matrix \<Rightarrow> error + matrix" where
  "add_obs_loop X j cluster_idx [] new_centers = Inr new_centers"
| "add_obs_loop X j cluster_idx (l # ls) new_centers =
     ebind (mat_get new_centers cluster_idx l) (\<lambda>s.
     ebind (mat_get X j l) (\<lambda>x.
     ebind (mat_set new_centers cluster_idx l (dadd s x)) (\<lambda>new_centers'.
       add_obs_loop X j cluster_idx ls new_centers')))"

text \<open>
  Lines 66 to 72: the accumulation over the observations. The index
  \<open>assignments[j] - 1\<close> is used unchecked by the source, on \<open>counts\<close> first.
\<close>

fun accumulate_loop ::
  "matrix \<Rightarrow> int list \<Rightarrow> nat list \<Rightarrow> matrix \<times> int list \<Rightarrow> error + matrix \<times> int list" where
  "accumulate_loop X assignments [] (new_centers, counts) = Inr (new_centers, counts)"
| "accumulate_loop X assignments (j # js) (new_centers, counts) =
     ebind (vec_get assignments j) (\<lambda>a.
     ebind (as_index (a - 1) (length counts)) (\<lambda>cluster_idx.
     ebind (vec_set counts cluster_idx (counts ! cluster_idx + 1)) (\<lambda>counts'.
     ebind (add_obs_loop X j cluster_idx [0..<ncol X] new_centers) (\<lambda>new_centers'.
       accumulate_loop X assignments js (new_centers', counts')))))"

text \<open>Lines 77 to 79: divide row \<open>j\<close> by its count.\<close>

fun divide_loop :: "nat \<Rightarrow> int \<Rightarrow> nat list \<Rightarrow> matrix \<Rightarrow> error + matrix" where
  "divide_loop j c [] new_centers = Inr new_centers"
| "divide_loop j c (l # ls) new_centers =
     ebind (mat_get new_centers j l) (\<lambda>s.
     ebind (ddiv_int s c) (\<lambda>q.
     ebind (mat_set new_centers j l q) (\<lambda>new_centers'.
       divide_loop j c ls new_centers')))"

text \<open>Lines 83 to 85: copy row \<open>rand_idx\<close> of \<open>X\<close> into row \<open>j\<close>.\<close>

fun reseed_loop :: "matrix \<Rightarrow> int \<Rightarrow> nat \<Rightarrow> nat list \<Rightarrow> matrix \<Rightarrow> error + matrix" where
  "reseed_loop X rand_idx j [] new_centers = Inr new_centers"
| "reseed_loop X rand_idx j (l # ls) new_centers =
     ebind (as_index rand_idx (nrow X)) (\<lambda>r.
     ebind (mat_get X r l) (\<lambda>x.
     ebind (mat_set new_centers j l x) (\<lambda>new_centers'.
       reseed_loop X rand_idx j ls new_centers')))"

text \<open>
  Lines 75 to 87: the loop over the clusters, dividing where the count is positive and
  reseeding from \<open>floor(runif(0, n_obs))\<close> where it is not.
\<close>

fun mean_loop ::
  "matrix \<Rightarrow> int list \<Rightarrow> (nat \<Rightarrow> real) \<Rightarrow> nat list \<Rightarrow> matrix \<times> nat \<Rightarrow> error + matrix \<times> nat" where
  "mean_loop X counts rng [] (new_centers, p) = Inr (new_centers, p)"
| "mean_loop X counts rng (j # js) (new_centers, p) =
     ebind (vec_get counts j) (\<lambda>c.
       if 0 < c then
         ebind (divide_loop j c [0..<ncol X] new_centers) (\<lambda>new_centers'.
           mean_loop X counts rng js (new_centers', p))
       else
         (let (u, p') = runif rng p 0 (real (nrow X));
              rand_idx = \<lfloor>u\<rfloor>
          in ebind (reseed_loop X rand_idx j [0..<ncol X] new_centers) (\<lambda>new_centers'.
               mean_loop X counts rng js (new_centers', p'))))"

text \<open>
  The whole update step for \<open>k\<close> clusters: \<open>new_centers\<close> is filled with zeros, \<open>counts\<close>
  is \<open>k\<close> zeros, then the two loops run. It returns the new centers and the generator
  state.
\<close>

definition update_step ::
  "matrix \<Rightarrow> int list \<Rightarrow> nat \<Rightarrow> (nat \<Rightarrow> real) \<Rightarrow> nat \<Rightarrow> error + matrix \<times> nat" where
  "update_step X assignments k rng p =
     ebind (accumulate_loop X assignments [0..<nrow X] (zero_matrix k (ncol X), replicate k 0))
       (\<lambda>(new_centers, counts). mean_loop X counts rng [0..<k] (new_centers, p))"

section \<open>The movement of the centers (lines 89 to 96)\<close>

fun change_row_loop :: "matrix \<Rightarrow> matrix \<Rightarrow> nat \<Rightarrow> nat list \<Rightarrow> double \<Rightarrow> error + double" where
  "change_row_loop new_centers centers j [] center_change = Inr center_change"
| "change_row_loop new_centers centers j (l # ls) center_change =
     ebind (mat_get new_centers j l) (\<lambda>a.
     ebind (mat_get centers j l) (\<lambda>b.
       let diff = dsub a b
       in change_row_loop new_centers centers j ls (dadd center_change (dmul diff diff))))"

fun change_loop :: "matrix \<Rightarrow> matrix \<Rightarrow> nat \<Rightarrow> nat list \<Rightarrow> double \<Rightarrow> error + double" where
  "change_loop new_centers centers n_vars [] center_change = Inr center_change"
| "change_loop new_centers centers n_vars (j # js) center_change =
     ebind (change_row_loop new_centers centers j [0..<n_vars] center_change) (\<lambda>center_change'.
       change_loop new_centers centers n_vars js center_change')"

definition center_change :: "matrix \<Rightarrow> matrix \<Rightarrow> nat \<Rightarrow> nat \<Rightarrow> error + double" where
  "center_change new_centers centers k n_vars =
     change_loop new_centers centers n_vars [0..<k] (Fin 0)"

section \<open>The engine: \<^verbatim>\<open>kmeans_cpp_loop\<close>\<close>

text \<open>
  The returned list has the fields \<open>centers\<close>, \<open>cluster\<close> and \<open>iter\<close>. The model adds
  \<open>exit_at\<close>, which records which of the three \<^verbatim>\<open>return\<close> statements produced the
  result (lines 53, 101 and 110); it is not a value of the program.
\<close>

datatype exit = CONVERGED_BY_STABILITY | CONVERGED_BY_TOLERANCE | STOPPED_AT_MAX_ITER

record result =
  centers :: matrix
  cluster :: "int list"
  iter :: int
  exit_at :: exit

text \<open>
  The loop of lines 46 to 107 over the iterations still to run, with the variables
  \<open>C\<close> (the source's \<^verbatim>\<open>centers\<close>), \<open>assignments\<close>, \<open>old_assignments\<close> and the generator state. The vectors
  compared on line 52 always have the same length, so \<^verbatim>\<open>all(a == b)\<close> is equality.
\<close>

fun main_loop ::
  "matrix \<Rightarrow> nat \<Rightarrow> int \<Rightarrow> double \<Rightarrow> (nat \<Rightarrow> real) \<Rightarrow> nat list \<Rightarrow>
     matrix \<Rightarrow> int list \<Rightarrow> int list \<Rightarrow> nat \<Rightarrow> error + result \<times> nat" where
  "main_loop X k max_iter tol rng [] C assignments old_assignments p =
     Inr (\<lparr>centers = C, cluster = assignments, iter = max_iter,
           exit_at = STOPPED_AT_MAX_ITER\<rparr>, p)"
| "main_loop X k max_iter tol rng (i # rest) C assignments old_assignments p =
     ebind (find_closest_centers X C) (\<lambda>assignments'.
       if assignments' = old_assignments then
         Inr (\<lparr>centers = C, cluster = assignments', iter = int i,
               exit_at = CONVERGED_BY_STABILITY\<rparr>, p)
       else
         ebind (update_step X assignments' k rng p) (\<lambda>(new_centers, p').
         ebind (center_change new_centers C k (ncol X)) (\<lambda>change.
           if dless change tol then
             Inr (\<lparr>centers = new_centers, cluster = assignments', iter = int i + 1,
                   exit_at = CONVERGED_BY_TOLERANCE\<rparr>, p')
           else main_loop X k max_iter tol rng rest new_centers assignments' assignments' p')))"

definition kmeans_cpp_loop ::
  "matrix \<Rightarrow> matrix \<Rightarrow> int \<Rightarrow> double \<Rightarrow> (nat \<Rightarrow> real) \<Rightarrow> nat \<Rightarrow> error + result \<times> nat" where
  "kmeans_cpp_loop X C max_iter tol rng p =
     main_loop X (nrow C) max_iter tol rng [0..<nat max_iter] C
       (replicate (nrow X) 0) (replicate (nrow X) 0) p"

section \<open>Shapes, finiteness and the values the loops compute\<close>

text \<open>
  The definitions of this section are not part of the program. They name the
  conditions on the inputs and the values that the loops are proved to compute.
\<close>

subsection \<open>Well-shaped and finite matrices\<close>

definition cell :: "matrix \<Rightarrow> nat \<Rightarrow> nat \<Rightarrow> double" where
  "cell M i l = rows M ! i ! l"

text \<open>\<open>shaped M n d\<close>: the matrix has \<open>n\<close> rows and \<open>d\<close> columns, each row of length \<open>d\<close>.\<close>

definition shaped :: "matrix \<Rightarrow> nat \<Rightarrow> nat \<Rightarrow> bool" where
  "shaped M n d = (nrow M = n \<and> ncol M = d \<and> wf_matrix M)"


text \<open>A matrix of finite doubles from a list of rows of reals.\<close>

definition real_matrix :: "nat \<Rightarrow> real list list \<Rightarrow> matrix" where
  "real_matrix d rs = \<lparr>ncol = d, rows = map (map Fin) rs\<rparr>"


subsection \<open>The assignment step as a function\<close>

definition sq_diff :: "double \<Rightarrow> double \<Rightarrow> double" where
  "sq_diff x c = dmul (dsub x c) (dsub x c)"

definition sq_dist :: "matrix \<Rightarrow> matrix \<Rightarrow> nat \<Rightarrow> nat \<Rightarrow> nat list \<Rightarrow> double \<Rightarrow> double" where
  "sq_dist X C i j ls dst = foldl (\<lambda>s l. dadd s (sq_diff (cell X i l) (cell C j l))) dst ls"

fun closest_from :: "matrix \<Rightarrow> matrix \<Rightarrow> nat \<Rightarrow> nat list \<Rightarrow> double \<Rightarrow> int \<Rightarrow> int" where
  "closest_from X C i [] min_dist best = best"
| "closest_from X C i (j # js) min_dist best =
     (let dst = sq_dist X C i j [0..<ncol X] (Fin 0)
      in if dless dst min_dist then closest_from X C i js dst (int j + 1)
         else closest_from X C i js min_dist best)"

definition closest :: "matrix \<Rightarrow> matrix \<Rightarrow> nat \<Rightarrow> int" where
  "closest X C i = closest_from X C i [0..<nrow C] PInf 0"

subsection \<open>The update step as a function\<close>









subsection \<open>Squares and their sums\<close>

text \<open>The doubles a sum of squares can be: a finite number at least 0, \<open>+\<infinity>\<close> or NaN.\<close>

fun sq_like :: "double \<Rightarrow> bool" where
  "sq_like (Fin a) = (0 \<le> a)"
| "sq_like PInf = True"
| "sq_like NaN = True"
| "sq_like NInf = False"

subsection \<open>The movement of the centers and the objective\<close>



section \<open>What the loops compute\<close>

subsection \<open>Doubles\<close>


lemma sq_like_dmul: "sq_like (dmul x x)"
  by (cases x) (auto simp: inf_of_sign_def)

lemma sq_like_dadd: "sq_like a \<Longrightarrow> sq_like b \<Longrightarrow> sq_like (dadd a b)"
  by (cases a; cases b) auto

lemma sq_like_not_less: "sq_like a \<Longrightarrow> dle tol (Fin 0) \<Longrightarrow> \<not> dless a tol"
  by (cases a; cases tol) auto













subsection \<open>Errors, index lists and matrices\<close>

text \<open>
  On a well-shaped matrix the reads and writes inside the shape succeed.
\<close>

lemma ebind_eq_Inr: "ebind m f = Inr y \<longleftrightarrow> (\<exists>x. m = Inr x \<and> f x = Inr y)"
  by (cases m) auto

lemma upt_below: "set [0..<n] \<subseteq> {..<n}"
  by auto



lemma shaped_row_length: "shaped M n d \<Longrightarrow> i < n \<Longrightarrow> length (rows M ! i) = d"
  by (auto simp: shaped_def wf_matrix_def nrow_def list_all_length)

lemma mat_get_shaped: "shaped M n d \<Longrightarrow> i < n \<Longrightarrow> l < d \<Longrightarrow> mat_get M i l = Inr (cell M i l)"
  using shaped_row_length [of M n d i] by (simp add: mat_get_def cell_def shaped_def)







lemma mat_set_nrow: "mat_set M i l v = Inr M' \<Longrightarrow> nrow M' = nrow M"
  by (auto simp: mat_set_def nrow_def split: if_splits)





subsection \<open>The assignment step\<close>

text \<open>
  What \<open>find_closest_centers\<close> returns: its range on every input, its value on
  well-shaped matrices, and an entry of at least 1 on finite data.
\<close>

lemma center_loop_range:
  "center_loop X C i js min_dist best = Inr b \<Longrightarrow> b = best \<or> (\<exists>j\<in>set js. b = int j + 1)"
proof (induction js arbitrary: min_dist best)
  case Nil
  then show ?case by simp
next
  case (Cons j js)
  from Cons.prems obtain dst where
    r: "(if dless dst min_dist then center_loop X C i js dst (int j + 1)
         else center_loop X C i js min_dist best) = Inr b"
    by (auto simp: ebind_eq_Inr)
  show ?case
  proof (cases "dless dst min_dist")
    case True
    with r Cons.IH [of dst "int j + 1"] show ?thesis by auto
  next
    case False
    with r Cons.IH [of min_dist best] show ?thesis by auto
  qed
qed

lemma obs_loop_range:
  "obs_loop X C idxs asg = Inr A \<Longrightarrow>
     length A = length asg \<and>
     (\<forall>m<length A. A ! m = asg ! m \<or> A ! m = 0 \<or> (\<exists>j<nrow C. A ! m = int j + 1))"
proof (induction idxs arbitrary: asg)
  case Nil
  then show ?case by simp
next
  case (Cons i idxs)
  from Cons.prems obtain b asg' where
    b: "center_loop X C i [0..<nrow C] PInf 0 = Inr b"
    and s: "vec_set asg i b = Inr asg'"
    and r: "obs_loop X C idxs asg' = Inr A"
    by (auto simp: ebind_eq_Inr)
  from s have asg': "asg' = asg[i := b]" and i: "i < length asg"
    by (auto simp: vec_set_def split: if_splits)
  from center_loop_range [OF b] have bb: "b = 0 \<or> (\<exists>j<nrow C. b = int j + 1)"
    by auto
  from Cons.IH [OF r] have len: "length A = length asg'"
    and el: "\<forall>m<length A. A ! m = asg' ! m \<or> A ! m = 0 \<or> (\<exists>j<nrow C. A ! m = int j + 1)"
    by auto
  show ?case
  proof (intro conjI allI impI)
    show "length A = length asg" using len asg' by simp
  next
    fix m assume m: "m < length A"
    show "A ! m = asg ! m \<or> A ! m = 0 \<or> (\<exists>j<nrow C. A ! m = int j + 1)"
    proof (cases "m = i")
      case True
      with el m asg' i len have "A ! m = b \<or> A ! m = 0 \<or> (\<exists>j<nrow C. A ! m = int j + 1)" by auto
      with bb show ?thesis by auto
    next
      case False
      with el m asg' show ?thesis by auto
    qed
  qed
qed

lemma find_closest_centers_range:
  assumes "find_closest_centers X C = Inr A"
  shows "length A = nrow X" and "\<forall>a\<in>set A. 0 \<le> a \<and> a \<le> int (nrow C)"
proof -
  from obs_loop_range [OF assms [unfolded find_closest_centers_def]]
  have len: "length A = nrow X"
    and el: "\<forall>m<length A. A ! m = replicate (nrow X) 0 ! m \<or> A ! m = 0 \<or>
               (\<exists>j<nrow C. A ! m = int j + 1)"
    by auto
  show "length A = nrow X" by (rule len)
  show "\<forall>a\<in>set A. 0 \<le> a \<and> a \<le> int (nrow C)"
  proof
    fix a assume "a \<in> set A"
    then obtain m where m: "m < length A" "a = A ! m" by (auto simp: in_set_conv_nth)
    with el len have "a = 0 \<or> (\<exists>j<nrow C. a = int j + 1)" by auto
    then show "0 \<le> a \<and> a \<le> int (nrow C)" by auto
  qed
qed

lemma dist_loop_shaped:
  assumes "shaped X n d" "shaped C k d" "i < n" "j < k"
  shows "set ls \<subseteq> {..<d} \<Longrightarrow> dist_loop X C i j ls dst = Inr (sq_dist X C i j ls dst)"
proof (induction ls arbitrary: dst)
  case Nil
  then show ?case by (simp add: sq_dist_def)
next
  case (Cons l ls)
  then have l: "l < d" and ls: "set ls \<subseteq> {..<d}" by auto
  show ?case
    using Cons.IH [OF ls] mat_get_shaped [OF assms(1,3) l] mat_get_shaped [OF assms(2,4) l]
    by (simp add: sq_dist_def sq_diff_def Let_def)
qed







lemma center_loop_shaped:
  assumes "shaped X n d" "shaped C k d" "i < n"
  shows "set js \<subseteq> {..<k} \<Longrightarrow>
           center_loop X C i js min_dist best = Inr (closest_from X C i js min_dist best)"
proof (induction js arbitrary: min_dist best)
  case Nil
  then show ?case by simp
next
  case (Cons j js)
  then have j: "j < k" and js: "set js \<subseteq> {..<k}" by auto
  have d: "ncol X = d" using assms(1) by (simp add: shaped_def)
  have "dist_loop X C i j [0..<ncol X] (Fin 0) = Inr (sq_dist X C i j [0..<ncol X] (Fin 0))"
    using dist_loop_shaped [OF assms(1,2,3) j upt_below] d by simp
  then show ?case using Cons.IH [OF js] by (simp add: Let_def)
qed







lemma obs_loop_shaped:
  assumes "shaped X n d" "shaped C k d"
  shows "set idxs \<subseteq> {..<n} \<Longrightarrow> length asg = n \<Longrightarrow>
           \<exists>A. obs_loop X C idxs asg = Inr A \<and> length A = n \<and>
             (\<forall>m<n. A ! m = (if m \<in> set idxs then closest X C m else asg ! m))"
proof (induction idxs arbitrary: asg)
  case Nil
  then show ?case by simp
next
  case (Cons i idxs)
  then have i: "i < n" and idxs: "set idxs \<subseteq> {..<n}" by auto
  have k: "nrow C = k" using assms(2) by (simp add: shaped_def)
  have c: "center_loop X C i [0..<nrow C] PInf 0 = Inr (closest X C i)"
    using center_loop_shaped [OF assms i upt_below, of PInf 0] k by (simp add: closest_def)
  have s: "vec_set asg i (closest X C i) = Inr (asg[i := closest X C i])"
    using i Cons.prems(2) by (simp add: vec_set_def)
  from Cons.IH [OF idxs, of "asg[i := closest X C i]"] Cons.prems(2)
  obtain A where A: "obs_loop X C idxs (asg[i := closest X C i]) = Inr A" "length A = n"
    "\<forall>m<n. A ! m = (if m \<in> set idxs then closest X C m else asg[i := closest X C i] ! m)"
    by auto
  have "obs_loop X C (i # idxs) asg = Inr A" using c s A(1) by simp
  moreover have "\<forall>m<n. A ! m = (if m \<in> set (i # idxs) then closest X C m else asg ! m)"
    using A(3) Cons.prems(2) i by (auto simp: nth_list_update)
  ultimately show ?case using A(2) by blast
qed

lemma find_closest_centers_shaped:
  assumes "shaped X n d" "shaped C k d"
  shows "find_closest_centers X C = Inr (map (closest X C) [0..<n])"
proof -
  have n: "nrow X = n" using assms(1) by (simp add: shaped_def)
  from obs_loop_shaped [OF assms upt_below, of "replicate n 0"]
  obtain A where A: "obs_loop X C [0..<n] (replicate n 0) = Inr A" "length A = n"
    "\<forall>m<n. A ! m = closest X C m" by auto
  have "A = map (closest X C) [0..<n]"
    using A(2,3) by (intro nth_equalityI) auto
  with A(1) show ?thesis by (simp add: find_closest_centers_def n)
qed




subsection \<open>The update step\<close>















lemma add_obs_loop_nrow: "add_obs_loop X j c ls nc = Inr nc' \<Longrightarrow> nrow nc' = nrow nc"
proof (induction ls arbitrary: nc)
  case Nil
  then show ?case by simp
next
  case (Cons l ls)
  from Cons.prems obtain v nc1 where "mat_set nc c l v = Inr nc1" "add_obs_loop X j c ls nc1 = Inr nc'"
    by (auto simp: ebind_eq_Inr)
  with Cons.IH mat_set_nrow show ?case by metis
qed

lemma divide_loop_nrow: "divide_loop j c ls nc = Inr nc' \<Longrightarrow> nrow nc' = nrow nc"
proof (induction ls arbitrary: nc)
  case Nil
  then show ?case by simp
next
  case (Cons l ls)
  from Cons.prems obtain v nc1 where "mat_set nc j l v = Inr nc1" "divide_loop j c ls nc1 = Inr nc'"
    by (auto simp: ebind_eq_Inr)
  with Cons.IH mat_set_nrow show ?case by metis
qed

lemma reseed_loop_nrow: "reseed_loop X r j ls nc = Inr nc' \<Longrightarrow> nrow nc' = nrow nc"
proof (induction ls arbitrary: nc)
  case Nil
  then show ?case by simp
next
  case (Cons l ls)
  from Cons.prems obtain v nc1 where "mat_set nc j l v = Inr nc1" "reseed_loop X r j ls nc1 = Inr nc'"
    by (auto simp: ebind_eq_Inr)
  with Cons.IH mat_set_nrow show ?case by metis
qed

lemma accumulate_loop_nrow:
  "accumulate_loop X A js (nc, counts) = Inr (nc', counts') \<Longrightarrow> nrow nc' = nrow nc"
proof (induction js arbitrary: nc counts)
  case Nil
  then show ?case by simp
next
  case (Cons j js)
  from Cons.prems obtain c counts1 nc1 where "add_obs_loop X j c [0..<ncol X] nc = Inr nc1"
    "accumulate_loop X A js (nc1, counts1) = Inr (nc', counts')"
    by (auto simp: ebind_eq_Inr)
  with Cons.IH add_obs_loop_nrow show ?case by metis
qed

lemma mean_loop_nrow:
  "mean_loop X counts rng js (nc, p) = Inr (nc', p') \<Longrightarrow> nrow nc' = nrow nc"
proof (induction js arbitrary: nc p)
  case Nil
  then show ?case by simp
next
  case (Cons j js)
  from Cons.prems obtain c where c: "vec_get counts j = Inr c"
    and r: "(if 0 < c then
         ebind (divide_loop j c [0..<ncol X] nc) (\<lambda>new_centers'.
           mean_loop X counts rng js (new_centers', p))
       else
         (let (u, p') = runif rng p 0 (real (nrow X));
              rand_idx = \<lfloor>u\<rfloor>
          in ebind (reseed_loop X rand_idx j [0..<ncol X] nc) (\<lambda>new_centers'.
               mean_loop X counts rng js (new_centers', p')))) = Inr (nc', p')"
    by (auto simp: ebind_eq_Inr)
  show ?case
  proof (cases "0 < c")
    case True
    with r obtain nc1 where "divide_loop j c [0..<ncol X] nc = Inr nc1"
      "mean_loop X counts rng js (nc1, p) = Inr (nc', p')"
      by (auto simp: ebind_eq_Inr)
    with Cons.IH divide_loop_nrow show ?thesis by metis
  next
    case False
    with r obtain nc1 r1 q where "reseed_loop X r1 j [0..<ncol X] nc = Inr nc1"
      "mean_loop X counts rng js (nc1, q) = Inr (nc', p')"
      by (auto simp: ebind_eq_Inr Let_def split: prod.splits)
    with Cons.IH reseed_loop_nrow show ?thesis by metis
  qed
qed

lemma update_step_nrow: "update_step X A k rng p = Inr (C', p') \<Longrightarrow> nrow C' = k"
proof -
  assume "update_step X A k rng p = Inr (C', p')"
  then obtain nc counts where
    a: "accumulate_loop X A [0..<nrow X] (zero_matrix k (ncol X), replicate k 0) = Inr (nc, counts)"
    and m: "mean_loop X counts rng [0..<k] (nc, p) = Inr (C', p')"
    by (auto simp: update_step_def ebind_eq_Inr)
  have "nrow (zero_matrix k (ncol X)) = k" by (simp add: zero_matrix_def nrow_def)
  with accumulate_loop_nrow [OF a] mean_loop_nrow [OF m] show ?thesis by simp
qed

lemma mean_loop_no_draw:
  "mean_loop X counts rng js (nc, p) = Inr (nc', p') \<Longrightarrow>
     p \<le> p' \<and> (p' = p \<longrightarrow> (\<forall>rng' q. mean_loop X counts rng' js (nc, q) = Inr (nc', q)))"
proof (induction js arbitrary: nc p)
  case Nil
  then show ?case by simp
next
  case (Cons j js)
  from Cons.prems obtain c where c: "vec_get counts j = Inr c"
    and r: "(if 0 < c then
         ebind (divide_loop j c [0..<ncol X] nc) (\<lambda>new_centers'.
           mean_loop X counts rng js (new_centers', p))
       else
         (let (u, p') = runif rng p 0 (real (nrow X));
              rand_idx = \<lfloor>u\<rfloor>
          in ebind (reseed_loop X rand_idx j [0..<ncol X] nc) (\<lambda>new_centers'.
               mean_loop X counts rng js (new_centers', p')))) = Inr (nc', p')"
    by (auto simp: ebind_eq_Inr)
  show ?case
  proof (cases "0 < c")
    case True
    with r obtain nc1 where d: "divide_loop j c [0..<ncol X] nc = Inr nc1"
      and m: "mean_loop X counts rng js (nc1, p) = Inr (nc', p')"
      by (auto simp: ebind_eq_Inr)
    from Cons.IH [OF m] c True d show ?thesis by simp
  next
    case False
    show ?thesis
    proof (cases "nrow X = 0")
      case True
      with r False obtain nc1 where d: "reseed_loop X 0 j [0..<ncol X] nc = Inr nc1"
        and m: "mean_loop X counts rng js (nc1, p) = Inr (nc', p')"
        by (auto simp: ebind_eq_Inr runif_def)
      from Cons.IH [OF m] c False d True show ?thesis by (simp add: runif_def)
    next
      case n: False
      with r False obtain nc1 where
        m: "mean_loop X counts rng js (nc1, Suc p) = Inr (nc', p')"
        by (auto simp: ebind_eq_Inr runif_def)
      from Cons.IH [OF m] show ?thesis by simp
    qed
  qed
qed

lemma update_step_no_draw:
  assumes "update_step X A k rng p = Inr (C', p')"
  shows "p \<le> p'" and "p' = p \<Longrightarrow> update_step X A k rng' q = Inr (C', q)"
proof -
  from assms obtain nc counts where
    a: "accumulate_loop X A [0..<nrow X] (zero_matrix k (ncol X), replicate k 0) = Inr (nc, counts)"
    and m: "mean_loop X counts rng [0..<k] (nc, p) = Inr (C', p')"
    by (auto simp: update_step_def ebind_eq_Inr)
  from mean_loop_no_draw [OF m] show "p \<le> p'" by simp
  assume "p' = p"
  with mean_loop_no_draw [OF m] have "mean_loop X counts rng' [0..<k] (nc, q) = Inr (C', q)"
    by simp
  with a show "update_step X A k rng' q = Inr (C', q)" by (simp add: update_step_def)
qed








subsection \<open>The movement of the centers\<close>

text \<open>
  The value of \<open>center_change\<close> is a sum of squares; it is 0 exactly when no cell moved.
\<close>

lemma change_row_loop_sq_like:
  "change_row_loop N C j ls acc = Inr r \<Longrightarrow> sq_like acc \<Longrightarrow> sq_like r"
proof (induction ls arbitrary: acc)
  case Nil
  then show ?case by simp
next
  case (Cons l ls)
  from Cons.prems(1) obtain a b where
    r: "change_row_loop N C j ls (dadd acc (dmul (dsub a b) (dsub a b))) = Inr r"
    by (auto simp: ebind_eq_Inr Let_def)
  show ?case
    by (rule Cons.IH [OF r]) (simp add: sq_like_dadd sq_like_dmul Cons.prems(2))
qed

lemma change_loop_sq_like:
  "change_loop N C d js acc = Inr r \<Longrightarrow> sq_like acc \<Longrightarrow> sq_like r"
proof (induction js arbitrary: acc)
  case Nil
  then show ?case by simp
next
  case (Cons j js)
  from Cons.prems(1) obtain acc' where
    a: "change_row_loop N C j [0..<d] acc = Inr acc'" and r: "change_loop N C d js acc' = Inr r"
    by (auto simp: ebind_eq_Inr)
  from Cons.IH [OF r change_row_loop_sq_like [OF a Cons.prems(2)]] show ?case .
qed

lemma center_change_sq_like: "center_change N C k d = Inr r \<Longrightarrow> sq_like r"
  unfolding center_change_def by (erule change_loop_sq_like) simp






subsection \<open>The main loop\<close>

text \<open>
  One iteration of the loop taken apart, and what holds of every result.
\<close>

lemma main_loop_Cons_Inr:
  assumes "main_loop X k m tol rng (i # idxs) C asg old p = Inr (res, p')"
  obtains A where "find_closest_centers X C = Inr A" "A = old" "p' = p"
      "res = \<lparr>centers = C, cluster = A, iter = int i, exit_at = CONVERGED_BY_STABILITY\<rparr>"
  | A N q cc where "find_closest_centers X C = Inr A" "A \<noteq> old"
      "update_step X A k rng p = Inr (N, q)" "center_change N C k (ncol X) = Inr cc"
      "dless cc tol" "p' = q"
      "res = \<lparr>centers = N, cluster = A, iter = int i + 1, exit_at = CONVERGED_BY_TOLERANCE\<rparr>"
  | A N q cc where "find_closest_centers X C = Inr A" "A \<noteq> old"
      "update_step X A k rng p = Inr (N, q)" "center_change N C k (ncol X) = Inr cc"
      "\<not> dless cc tol" "main_loop X k m tol rng idxs N A A q = Inr (res, p')"
proof -
  from assms obtain A where A: "find_closest_centers X C = Inr A"
    and r: "(if A = old then
               Inr (\<lparr>centers = C, cluster = A, iter = int i, exit_at = CONVERGED_BY_STABILITY\<rparr>, p)
             else
               ebind (update_step X A k rng p) (\<lambda>(new_centers, p').
               ebind (center_change new_centers C k (ncol X)) (\<lambda>change.
                 if dless change tol then
                   Inr (\<lparr>centers = new_centers, cluster = A, iter = int i + 1,
                         exit_at = CONVERGED_BY_TOLERANCE\<rparr>, p')
                 else main_loop X k m tol rng idxs new_centers A A p'))) = Inr (res, p')"
    by (auto simp: ebind_eq_Inr)
  show thesis
  proof (cases "A = old")
    case True
    with r A that(1) show thesis by auto
  next
    case False
    with r obtain N q cc where u: "update_step X A k rng p = Inr (N, q)"
      and c: "center_change N C k (ncol X) = Inr cc"
      and r': "(if dless cc tol then
                  Inr (\<lparr>centers = N, cluster = A, iter = int i + 1,
                        exit_at = CONVERGED_BY_TOLERANCE\<rparr>, q)
                else main_loop X k m tol rng idxs N A A q) = Inr (res, p')"
      by (auto simp: ebind_eq_Inr)
    show thesis
    proof (cases "dless cc tol")
      case True
      with r' A False u c that(2) show thesis by auto
    next
      case False
      with r' A \<open>A \<noteq> old\<close> u c that(3) show thesis by auto
    qed
  qed
qed

lemma main_loop_no_tolerance_exit:
  assumes "dle tol (Fin 0)"
  shows "main_loop X k m tol rng idxs C asg old p = Inr (res, p') \<Longrightarrow>
           exit_at res \<noteq> CONVERGED_BY_TOLERANCE"
proof (induction idxs arbitrary: C asg old p)
  case Nil
  then show ?case by auto
next
  case (Cons i idxs)
  from Cons.prems show ?case
  proof (cases rule: main_loop_Cons_Inr)
    case (1 A)
    then show ?thesis by simp
  next
    case (2 A N q cc)
    with sq_like_not_less [OF center_change_sq_like [OF 2(4)] assms] show ?thesis by simp
  next
    case (3 A N q cc)
    from Cons.IH [OF 3(6)] show ?thesis .
  qed
qed

lemma main_loop_cluster_range:
  "main_loop X k m tol rng idxs C asg old p = Inr (res, p') \<Longrightarrow> nrow C = k \<Longrightarrow>
     length asg = nrow X \<Longrightarrow> \<forall>a\<in>set asg. 0 \<le> a \<and> a \<le> int k \<Longrightarrow>
     length (cluster res) = nrow X \<and> (\<forall>a\<in>set (cluster res). 0 \<le> a \<and> a \<le> int k)"
proof (induction idxs arbitrary: C asg old p)
  case Nil
  then show ?case by auto
next
  case (Cons i idxs)
  from Cons.prems(1) show ?case
  proof (cases rule: main_loop_Cons_Inr)
    case (1 A)
    with find_closest_centers_range [OF 1(1)] Cons.prems(2) show ?thesis by simp
  next
    case (2 A N q cc)
    with find_closest_centers_range [OF 2(1)] Cons.prems(2) show ?thesis by simp
  next
    case (3 A N q cc)
    from find_closest_centers_range [OF 3(1)] Cons.prems(2)
    have "length A = nrow X" "\<forall>a\<in>set A. 0 \<le> a \<and> a \<le> int k" by simp_all
    from Cons.IH [OF 3(6) update_step_nrow [OF 3(3)] this] show ?thesis .
  qed
qed

lemma main_loop_no_draw:
  "main_loop X k m tol rng idxs C asg old p = Inr (res, p') \<Longrightarrow>
     p \<le> p' \<and> (p' = p \<longrightarrow> (\<forall>rng' q. main_loop X k m tol rng' idxs C asg old q = Inr (res, q)))"
proof (induction idxs arbitrary: C asg old p)
  case Nil
  then show ?case by auto
next
  case (Cons i idxs)
  from Cons.prems show ?case
  proof (cases rule: main_loop_Cons_Inr)
    case (1 A)
    then show ?thesis by simp
  next
    case (2 A N q cc)
    from update_step_no_draw [OF 2(3)] 2 show ?thesis by simp
  next
    case (3 A N q cc)
    from Cons.IH [OF 3(6)] have qp: "q \<le> p'"
      and ind: "p' = q \<longrightarrow> (\<forall>rng' q'. main_loop X k m tol rng' idxs N A A q' = Inr (res, q'))"
      by auto
    from update_step_no_draw(1) [OF 3(3)] have pq: "p \<le> q" .
    show ?thesis
    proof (intro conjI impI allI)
      show "p \<le> p'" using pq qp by simp
    next
      fix rng' q' assume e: "p' = p"
      with pq qp have "q = p" "p' = q" by simp_all
      from update_step_no_draw(2) [OF 3(3) \<open>q = p\<close>]
      have u: "update_step X A k rng' q' = Inr (N, q')" .
      from ind \<open>p' = q\<close> have "main_loop X k m tol rng' idxs N A A q' = Inr (res, q')" by simp
      with 3 u show "main_loop X k m tol rng' (i # idxs) C asg old q' = Inr (res, q')"
        by simp
    qed
  qed
qed




subsection \<open>The objective\<close>







section \<open>The claims\<close>

subsection \<open>Claim C1\<close>

text \<open>
  Claim C1, as stated, at one observation and one center, both at 0: the assignment
  step returns the entry 1, which is not below \<open>k = 1\<close>.
\<close>

theorem C1_counterexample:
  "find_closest_centers (real_matrix 1 [[0]]) (real_matrix 1 [[0]]) = Inr [1] \<and>
   \<not> (1 < int (nrow (real_matrix 1 [[0]])))"
  by code_simp

text \<open>
  Claim C1, amended: every entry of the assignment vector is an integer from 0 to \<open>k\<close>
  inclusive. On well-shaped matrices the assignment step returns a vector; what it
  returns has length \<open>n\<close> and entries from 0 to \<open>k\<close>; so has the vector the engine
  returns (the vector of a run is the initial vector of zeros or a vector returned by
  the assignment step).
\<close>

theorem assignment_entries_from_0_to_k:
  "(wf_matrix X \<and> wf_matrix C \<and> ncol C = ncol X \<longrightarrow> (\<exists>A. find_closest_centers X C = Inr A)) \<and>
   (find_closest_centers X C = Inr A \<longrightarrow>
      length A = nrow X \<and> (\<forall>a\<in>set A. 0 \<le> a \<and> a \<le> int (nrow C))) \<and>
   (kmeans_cpp_loop X C max_iter tol rng p = Inr (res, p') \<longrightarrow>
      length (cluster res) = nrow X \<and> (\<forall>a\<in>set (cluster res). 0 \<le> a \<and> a \<le> int (nrow C)))"
proof (intro conjI impI)
  assume "wf_matrix X \<and> wf_matrix C \<and> ncol C = ncol X"
  then have "shaped X (nrow X) (ncol X)" "shaped C (nrow C) (ncol X)"
    by (simp_all add: shaped_def)
  from find_closest_centers_shaped [OF this]
  show "\<exists>A. find_closest_centers X C = Inr A" by blast
next
  assume a: "find_closest_centers X C = Inr A"
  show "length A = nrow X" by (rule find_closest_centers_range(1) [OF a])
  show "\<forall>a\<in>set A. 0 \<le> a \<and> a \<le> int (nrow C)" by (rule find_closest_centers_range(2) [OF a])
next
  assume "kmeans_cpp_loop X C max_iter tol rng p = Inr (res, p')"
  then have m: "main_loop X (nrow C) max_iter tol rng [0..<nat max_iter] C
       (replicate (nrow X) 0) (replicate (nrow X) 0) p = Inr (res, p')"
    by (simp add: kmeans_cpp_loop_def)
  have r: "length (cluster res) = nrow X \<and>
        (\<forall>a\<in>set (cluster res). 0 \<le> a \<and> a \<le> int (nrow C))"
    by (rule main_loop_cluster_range [OF m]) simp_all
  from r show "length (cluster res) = nrow X" by simp
  from r show "\<forall>a\<in>set (cluster res). 0 \<le> a \<and> a \<le> int (nrow C)" by simp
qed

theorem assignment_entries_from_0_to_k_witness:
  "wf_matrix (real_matrix 1 [[0], [5]]) \<and> wf_matrix (real_matrix 1 [[0], [4]]) \<and>
   ncol (real_matrix 1 [[0], [4]]) = ncol (real_matrix 1 [[0], [5]]) \<and>
   find_closest_centers (real_matrix 1 [[0], [5]]) (real_matrix 1 [[0], [4]]) = Inr [1, 2] \<and>
   length [1, 2 :: int] = nrow (real_matrix 1 [[0], [5]]) \<and>
   (1 :: int) \<le> int (nrow (real_matrix 1 [[0], [4]])) \<and>
   (2 :: int) \<le> int (nrow (real_matrix 1 [[0], [4]])) \<and>
   kmeans_cpp_loop (real_matrix 1 [[0], [5]]) (real_matrix 1 [[0], [4]]) 3 (Fin 0)
       (rng_const (1 / 2)) 0 =
     Inr (\<lparr>centers = real_matrix 1 [[0], [5]], cluster = [1, 2], iter = 1,
           exit_at = CONVERGED_BY_STABILITY\<rparr>, 0)"
proof -
  have w: "wf_matrix (real_matrix 1 [[0], [5]]) \<and> wf_matrix (real_matrix 1 [[0], [4]]) \<and>
      ncol (real_matrix 1 [[0], [4]]) = ncol (real_matrix 1 [[0], [5]])"
    by (simp add: wf_matrix_def real_matrix_def)
  have a: "find_closest_centers (real_matrix 1 [[0], [5]]) (real_matrix 1 [[0], [4]]) = Inr [1, 2]"
    by code_simp
  have e: "kmeans_cpp_loop (real_matrix 1 [[0], [5]]) (real_matrix 1 [[0], [4]]) 3 (Fin 0)
       (rng_const (1 / 2)) 0 =
     Inr (\<lparr>centers = real_matrix 1 [[0], [5]], cluster = [1, 2], iter = 1,
           exit_at = CONVERGED_BY_STABILITY\<rparr>, 0)"
    by code_simp
  from assignment_entries_from_0_to_k [of "real_matrix 1 [[0], [5]]" "real_matrix 1 [[0], [4]]"
      "[1, 2]" 3 "Fin 0" "rng_const (1 / 2)" 0
      "\<lparr>centers = real_matrix 1 [[0], [5]], cluster = [1, 2], iter = 1,
           exit_at = CONVERGED_BY_STABILITY\<rparr>" 0] w a e
  show ?thesis by simp
qed

subsection \<open>Claim C2\<close>



subsection \<open>Claim C3\<close>




subsection \<open>Claim C4\<close>

text \<open>
  Claim C4, as stated, at \<open>tol = 0\<close>: the update leaves the one center where it was,
  the movement of the centers is exactly 0, and the run does not leave through the
  tolerance exit.
\<close>

theorem C4_counterexample:
  "dle (Fin 0) (Fin 0) \<and>
   update_step (real_matrix 1 [[0]]) [1] 1 (rng_const (1 / 2)) 0 = Inr (real_matrix 1 [[0]], 0) \<and>
   center_change (real_matrix 1 [[0]]) (real_matrix 1 [[0]]) 1 1 = Inr (Fin 0) \<and>
   kmeans_cpp_loop (real_matrix 1 [[0]]) (real_matrix 1 [[0]]) 1 (Fin 0) (rng_const (1 / 2)) 0 =
     Inr (\<lparr>centers = real_matrix 1 [[0]], cluster = [1], iter = 1,
           exit_at = STOPPED_AT_MAX_ITER\<rparr>, 0)"
  by code_simp

text \<open>
  Claim C4, amended: for \<open>tol \<le> 0\<close> no run leaves through the tolerance exit, whether
  or not the centers moved. The movement is a sum of squares, never below 0, and the
  test of line 100 is strict.
\<close>

theorem tolerance_exit_unreachable_for_nonpositive_tol:
  "dle tol (Fin 0) \<Longrightarrow> kmeans_cpp_loop X C max_iter tol rng p = Inr (res, p') \<Longrightarrow>
     exit_at res \<noteq> CONVERGED_BY_TOLERANCE"
  unfolding kmeans_cpp_loop_def by (rule main_loop_no_tolerance_exit)

theorem tolerance_exit_unreachable_for_nonpositive_tol_witness:
  "dle (Fin 0) (Fin 0) \<and>
   kmeans_cpp_loop (real_matrix 1 [[0]]) (real_matrix 1 [[0]]) 3 (Fin 0) (rng_const (1 / 2)) 0 =
     Inr (\<lparr>centers = real_matrix 1 [[0]], cluster = [1], iter = 1,
           exit_at = CONVERGED_BY_STABILITY\<rparr>, 0) \<and>
   exit_at \<lparr>centers = real_matrix 1 [[0]], cluster = [1], iter = 1,
           exit_at = CONVERGED_BY_STABILITY\<rparr> \<noteq> CONVERGED_BY_TOLERANCE"
proof -
  have t: "dle (Fin 0) (Fin 0)" by simp
  have e: "kmeans_cpp_loop (real_matrix 1 [[0]]) (real_matrix 1 [[0]]) 3 (Fin 0)
       (rng_const (1 / 2)) 0 =
     Inr (\<lparr>centers = real_matrix 1 [[0]], cluster = [1], iter = 1,
           exit_at = CONVERGED_BY_STABILITY\<rparr>, 0)"
    by code_simp
  from tolerance_exit_unreachable_for_nonpositive_tol [OF t e] t e show ?thesis by simp
qed

subsection \<open>Claim C5\<close>



subsection \<open>Claim C6\<close>




subsection \<open>Claim C7\<close>

text \<open>
  Claim C7, as stated, at two observations 0 and 1 and two centers 0 and 100: the
  second cluster is empty and is reseeded. Two invocations with the same
  \<open>(X, C, max_iter, tol)\<close>, the second one starting from the generator state the first
  one left, return different centers.
\<close>

theorem C7_counterexample:
  "kmeans_cpp_loop (real_matrix 1 [[0], [1]]) (real_matrix 1 [[0], [100]]) 1 (Fin 0)
       rng_alternating 0 =
     Inr (\<lparr>centers = real_matrix 1 [[1 / 2], [0]], cluster = [1, 1], iter = 1,
           exit_at = STOPPED_AT_MAX_ITER\<rparr>, 1) \<and>
   kmeans_cpp_loop (real_matrix 1 [[0], [1]]) (real_matrix 1 [[0], [100]]) 1 (Fin 0)
       rng_alternating 1 =
     Inr (\<lparr>centers = real_matrix 1 [[1 / 2], [1]], cluster = [1, 1], iter = 1,
           exit_at = STOPPED_AT_MAX_ITER\<rparr>, 2) \<and>
   real_matrix 1 [[1 / 2], [0]] \<noteq> real_matrix 1 [[1 / 2], [1]]"
  by code_simp

text \<open>
  Claim C7, amended: the result depends on \<open>(X, C, max_iter, tol)\<close> and on the state of
  the random generator, which a reseed reads and advances. A run that draws no random
  number (it ends in the generator state it started from) returns the same centers,
  cluster vector and iteration count from every generator and every generator state,
  and leaves that state as it found it.
\<close>

theorem result_independent_of_generator_without_reseed:
  "kmeans_cpp_loop X C max_iter tol rng p = Inr (res, p) \<Longrightarrow>
     kmeans_cpp_loop X C max_iter tol rng' q = Inr (res, q)"
  unfolding kmeans_cpp_loop_def using main_loop_no_draw by blast

theorem result_independent_of_generator_without_reseed_witness:
  "kmeans_cpp_loop (real_matrix 1 [[0], [5]]) (real_matrix 1 [[0], [4]]) 3 (Fin 0)
       rng_alternating 0 =
     Inr (\<lparr>centers = real_matrix 1 [[0], [5]], cluster = [1, 2], iter = 1,
           exit_at = CONVERGED_BY_STABILITY\<rparr>, 0) \<and>
   kmeans_cpp_loop (real_matrix 1 [[0], [5]]) (real_matrix 1 [[0], [4]]) 3 (Fin 0)
       (rng_const (1 / 2)) 7 =
     Inr (\<lparr>centers = real_matrix 1 [[0], [5]], cluster = [1, 2], iter = 1,
           exit_at = CONVERGED_BY_STABILITY\<rparr>, 7)"
proof -
  have e: "kmeans_cpp_loop (real_matrix 1 [[0], [5]]) (real_matrix 1 [[0], [4]]) 3 (Fin 0)
       rng_alternating 0 =
     Inr (\<lparr>centers = real_matrix 1 [[0], [5]], cluster = [1, 2], iter = 1,
           exit_at = CONVERGED_BY_STABILITY\<rparr>, 0)"
    by code_simp
  from result_independent_of_generator_without_reseed [OF e, of "rng_const (1 / 2)" 7] e
  show ?thesis by simp
qed

subsection \<open>Claim C8\<close>




subsection \<open>Claim C9\<close>




subsection \<open>Claim C10\<close>




end
